theory Spec2Isabelle
  imports
    Complex_Main
    "HOL-Library.AList"
    "HOL-Library.Sublist"
    "HOL-Library.Char_ord"
    "HOL-Library.List_Lexorder"
    "HOL-Library.Multiset"
begin

section \<open>Data model of the GTFS parser\<close>

text \<open>
  The entity types are imported by \<^verbatim>\<open>src/utils/gtfs-parser.ts\<close> from
  \<^verbatim>\<open>../types/train\<close>; the records below carry the fields the parser reads.
  A JavaScript string is a \<open>string\<close>; a string that may be missing and is only ever
  tested for truthiness is a \<open>string\<close> whose empty value is the falsy one; the optional
  \<^verbatim>\<open>route_short_name?\<close> is a \<open>string option\<close>. Sequence numbers, dates
  (\<open>YYYYMMDD\<close>) and exception types are JavaScript numbers holding integers: \<open>int\<close>.
\<close>

record Route =
  route_id :: string
  route_long_name :: string
  route_short_name :: "string option"

record Stop =
  stop_id :: string
  stop_name :: string
  stop_lat :: real
  stop_lon :: real

record Trip =
  route_id :: string
  trip_id :: string
  trip_short_name :: string
  trip_headsign :: string
  service_id :: string

record StopTime =
  trip_id :: string
  arrival_time :: string
  departure_time :: string
  stop_id :: string
  stop_sequence :: int

text \<open>\<^verbatim>\<open>EnrichedStopTime\<close> is the object \<^verbatim>\<open>{...time, stop_name, stop_code}\<close>.\<close>

record EnrichedStopTime = StopTime +
  stop_name :: string
  stop_code :: string

record Shape =
  shape_pt_lat :: real
  shape_pt_lon :: real

record CalendarEntry =
  service_id :: string
  monday :: bool
  tuesday :: bool
  wednesday :: bool
  thursday :: bool
  friday :: bool
  saturday :: bool
  sunday :: bool
  start_date :: int
  end_date :: int

record CalendarDateException =
  service_id :: string
  date :: int
  exception_type :: int

text \<open>
  A JavaScript \<^verbatim>\<open>Date\<close> is read only through four getters of the runtime; the record
  holds what they return (\<^verbatim>\<open>getMonth\<close> is zero-based, \<^verbatim>\<open>getDay\<close> is 0 for Sunday).
\<close>

record Date =
  getFullYear :: int
  getMonth :: int
  getDate :: int
  getDay :: int

datatype ResultType = station | route | train

datatype ResultData =
    StopData Stop
  | RouteData Route
  | TripRef string
  | TripStopRef string string string

record SearchResult =
  result_id :: string
  name :: string
  subtitle :: string
  result_type :: ResultType
  data :: ResultData

record TripMatch =
  tripId :: string
  fromStop :: EnrichedStopTime
  toStop :: EnrichedStopTime
  intermediateStops :: "EnrichedStopTime list"

subsection \<open>JavaScript \<^verbatim>\<open>Map\<close>: an association list in insertion order\<close>

text \<open>
  \<^verbatim>\<open>Map.get\<close> is \<^const>\<open>map_of\<close>, \<^verbatim>\<open>Map.set\<close> is \<^const>\<open>AList.update\<close> (a key that is
  present keeps its position, a new key goes last), \<^verbatim>\<open>forEach\<close> visits the list
  from its head, and \<^verbatim>\<open>size > 0\<close> is being a non-empty list.
\<close>

type_synonym ('k, 'v) js_map = "('k \<times> 'v) list"

record GTFSParser =
  routes :: "(string, Route) js_map"
  stops :: "(string, Stop) js_map"
  stopTimes :: "(string, StopTime list) js_map"
  shapes :: "(string, Shape list) js_map"
  trips :: "(string, Trip) js_map"
  tripsByNumber :: "(string, Trip list) js_map"
  calendarEntries :: "(string, CalendarEntry) js_map"
  calendarDateExceptions :: "(string, (int, int) js_map) js_map"
  hasCalendarData :: bool
  isLoaded :: bool

section \<open>Loading: \<^verbatim>\<open>overrideData\<close>\<close>

definition set_route :: "Route \<Rightarrow> (string, Route) js_map \<Rightarrow> (string, Route) js_map" where
  "set_route r m = (if Route.route_id r \<noteq> [] then AList.update (Route.route_id r) r m else m)"

definition set_stop :: "Stop \<Rightarrow> (string, Stop) js_map \<Rightarrow> (string, Stop) js_map" where
  "set_stop st m = (if Stop.stop_id st \<noteq> [] then AList.update (Stop.stop_id st) st m else m)"

definition set_entry :: "string \<times> 'v \<Rightarrow> (string, 'v) js_map \<Rightarrow> (string, 'v) js_map" where
  "set_entry e m = (if fst e \<noteq> [] then AList.update (fst e) (snd e) m else m)"

definition set_trip ::
  "Trip \<Rightarrow> (string, Trip) js_map \<times> (string, Trip list) js_map
     \<Rightarrow> (string, Trip) js_map \<times> (string, Trip list) js_map" where
  "set_trip t acc =
     (if Trip.trip_id t \<noteq> [] then
        (AList.update (Trip.trip_id t) t (fst acc),
         if trip_short_name t \<noteq> [] then
           (let existing = (case map_of (snd acc) (trip_short_name t) of
                              None \<Rightarrow> [] | Some ts \<Rightarrow> ts)
            in AList.update (trip_short_name t) (existing @ [t]) (snd acc))
         else snd acc)
      else acc)"

definition set_calendar ::
  "CalendarEntry \<Rightarrow> (string, CalendarEntry) js_map \<Rightarrow> (string, CalendarEntry) js_map" where
  "set_calendar e m =
     (if CalendarEntry.service_id e \<noteq> [] then AList.update (CalendarEntry.service_id e) e m
      else m)"

definition set_exception ::
  "CalendarDateException \<Rightarrow> (string, (int, int) js_map) js_map
     \<Rightarrow> (string, (int, int) js_map) js_map" where
  "set_exception x m =
     (if CalendarDateException.service_id x \<noteq> [] then
        (let dateMap = (case map_of m (CalendarDateException.service_id x) of
                          None \<Rightarrow> [] | Some dm \<Rightarrow> dm)
         in AList.update (CalendarDateException.service_id x)
              (AList.update (date x) (exception_type x) dateMap) m)
      else m)"

text \<open>
  \<^verbatim>\<open>overrideData\<close> clears every index of the parser and refills it from the snapshot;
  \<open>stopTimesIn\<close> and \<open>shapesIn\<close> are the \<^verbatim>\<open>Object.entries\<close> of the two records.
\<close>

definition overrideData ::
  "GTFSParser \<Rightarrow> Route list \<Rightarrow> Stop list \<Rightarrow> (string \<times> StopTime list) list
     \<Rightarrow> (string \<times> Shape list) list \<Rightarrow> Trip list \<Rightarrow> CalendarEntry list
     \<Rightarrow> CalendarDateException list \<Rightarrow> GTFSParser" where
  "overrideData this routesIn stopsIn stopTimesIn shapesIn tripsIn calendar calendarDates =
     (let rs = fold set_route routesIn [];
          ss = fold set_stop stopsIn [];
          sts = fold set_entry stopTimesIn [];
          shs = fold set_entry shapesIn [];
          tr = fold set_trip tripsIn ([], []);
          ce = fold set_calendar calendar [];
          cx = fold set_exception calendarDates []
      in this\<lparr> routes := rs, stops := ss, stopTimes := sts, shapes := shs,
               trips := fst tr, tripsByNumber := snd tr,
               calendarEntries := ce, calendarDateExceptions := cx,
               hasCalendarData := (ce \<noteq> [] \<or> cx \<noteq> []),
               isLoaded := (rs \<noteq> [] \<and> ss \<noteq> []) \<rparr>)"

text \<open>The parser a fresh \<^verbatim>\<open>new GTFSParser()\<close> holds.\<close>

definition emptyParser :: GTFSParser where
  "emptyParser = \<lparr> routes = [], stops = [], stopTimes = [], shapes = [], trips = [],
                    tripsByNumber = [], calendarEntries = [], calendarDateExceptions = [],
                    hasCalendarData = False, isLoaded = False \<rparr>"

section \<open>Lookups\<close>

definition getRouteName :: "GTFSParser \<Rightarrow> string \<Rightarrow> string" where
  "getRouteName this routeId =
     (case map_of (routes this) routeId of
        None \<Rightarrow> ''Unknown Route''
      | Some r \<Rightarrow> if route_long_name r \<noteq> [] then route_long_name r else ''Unknown Route'')"

definition getStopName :: "GTFSParser \<Rightarrow> string \<Rightarrow> string" where
  "getStopName this stopId =
     (case map_of (stops this) stopId of
        None \<Rightarrow> stopId
      | Some st \<Rightarrow> if Stop.stop_name st \<noteq> [] then Stop.stop_name st else stopId)"



definition getTrip :: "GTFSParser \<Rightarrow> string \<Rightarrow> Trip option" where
  "getTrip this tripId' = map_of (trips this) tripId'"



text \<open>The spread \<^verbatim>\<open>{...time, stop_name: getStopName(time.stop_id), stop_code: time.stop_id}\<close>.\<close>

definition enrich :: "GTFSParser \<Rightarrow> StopTime \<Rightarrow> EnrichedStopTime" where
  "enrich this time =
     \<lparr> trip_id = StopTime.trip_id time, arrival_time = arrival_time time,
       departure_time = departure_time time, stop_id = StopTime.stop_id time,
       stop_sequence = stop_sequence time,
       stop_name = getStopName this (StopTime.stop_id time),
       stop_code = StopTime.stop_id time \<rparr>"

section \<open>Arrays\<close>

text \<open>
  \<^verbatim>\<open>Array.prototype.slice(start, end)\<close>: a negative index counts from the end, and both
  are clamped to the array.
\<close>

definition slice :: "int \<Rightarrow> int \<Rightarrow> 'a list \<Rightarrow> 'a list" where
  "slice start end' xs =
     (let len = int (length xs);
          k = (if start < 0 then max (len + start) 0 else min start len);
          final = (if end' < 0 then max (len + end') 0 else min end' len)
      in take (nat (final - k)) (drop (nat k) xs))"

text \<open>
  \<^verbatim>\<open>Array.prototype.sort(cmp)\<close> is stable: it is the insertion sort that puts an
  element before the first one it does not compare greater than.
\<close>

fun insert_by :: "('a \<Rightarrow> 'a \<Rightarrow> int) \<Rightarrow> 'a \<Rightarrow> 'a list \<Rightarrow> 'a list" where
  "insert_by cmp x [] = [x]"
| "insert_by cmp x (y # ys) = (if cmp x y \<le> 0 then x # y # ys else y # insert_by cmp x ys)"

definition array_sort :: "('a \<Rightarrow> 'a \<Rightarrow> int) \<Rightarrow> 'a list \<Rightarrow> 'a list" where
  "array_sort cmp xs = foldr (insert_by cmp) xs []"

text \<open>\<^verbatim>\<open>(a, b) => a.stop_sequence - b.stop_sequence\<close>.\<close>

definition bySequence :: "'a StopTime_scheme \<Rightarrow> 'b StopTime_scheme \<Rightarrow> int" where
  "bySequence a b = stop_sequence a - stop_sequence b"

text \<open>\<^verbatim>\<open>Array.prototype.findIndex\<close>: the index of the first match, or \<open>-1\<close>.\<close>

fun findIndex :: "('a \<Rightarrow> bool) \<Rightarrow> 'a list \<Rightarrow> int" where
  "findIndex P [] = -1"
| "findIndex P (x # xs) =
     (if P x then 0 else (let i = findIndex P xs in if i = -1 then -1 else i + 1))"

text \<open>
  The idiom \<^verbatim>\<open>const seen = new Set(); xs.filter(x => { if (seen.has(key)) return false;
  seen.add(key); return true; })\<close>.
\<close>

fun filter_unseen :: "('a \<Rightarrow> string) \<Rightarrow> string set \<Rightarrow> 'a list \<Rightarrow> 'a list" where
  "filter_unseen key seen [] = []"
| "filter_unseen key seen (x # xs) =
     (if key x \<in> seen then filter_unseen key seen xs
      else x # filter_unseen key (insert (key x) seen) xs)"

section \<open>Stop-times of a trip\<close>

definition getIntermediateStops :: "GTFSParser \<Rightarrow> string \<Rightarrow> EnrichedStopTime list" where
  "getIntermediateStops this tripId' =
     (let times = (case map_of (stopTimes this) tripId' of None \<Rightarrow> [] | Some ts \<Rightarrow> ts)
      in array_sort bySequence (map (enrich this) (slice 1 (-1) times)))"

definition getStopTimesForTrip :: "GTFSParser \<Rightarrow> string \<Rightarrow> EnrichedStopTime list" where
  "getStopTimesForTrip this tripId' =
     (let times = (case map_of (stopTimes this) tripId' of None \<Rightarrow> [] | Some ts \<Rightarrow> ts)
      in array_sort bySequence (map (enrich this) times))"

section \<open>Service calendar\<close>

definition dateInt :: "Date \<Rightarrow> int" where
  "dateInt d = getFullYear d * 10000 + (getMonth d + 1) * 100 + getDate d"

definition isServiceActiveOnDate :: "GTFSParser \<Rightarrow> string \<Rightarrow> Date \<Rightarrow> bool" where
  "isServiceActiveOnDate this serviceId d =
     (if \<not> hasCalendarData this then True
      else if serviceId = [] then True
      else
        (let exceptionType =
               (case map_of (calendarDateExceptions this) serviceId of
                  None \<Rightarrow> None
                | Some exceptions \<Rightarrow> map_of exceptions (dateInt d))
         in if exceptionType = Some 1 then True
            else if exceptionType = Some 2 then False
            else
              (case map_of (calendarEntries this) serviceId of
                 None \<Rightarrow> False
               | Some entry \<Rightarrow>
                   if dateInt d < start_date entry \<or> dateInt d > end_date entry then False
                   else
                     (let dayOfWeek = getDay d
                      in if dayOfWeek = 0 then sunday entry
                         else if dayOfWeek = 1 then monday entry
                         else if dayOfWeek = 2 then tuesday entry
                         else if dayOfWeek = 3 then wednesday entry
                         else if dayOfWeek = 4 then thursday entry
                         else if dayOfWeek = 5 then friday entry
                         else if dayOfWeek = 6 then saturday entry
                         else False))))"

text \<open>
  The guard both trip queries share:
  \<^verbatim>\<open>if (date) { const trip = this.trips.get(tripId);
    if (trip && !this.isServiceActiveOnDate(trip.service_id, date)) return; }\<close>.
\<close>

definition filteredByCalendar :: "GTFSParser \<Rightarrow> string \<Rightarrow> Date option \<Rightarrow> bool" where
  "filteredByCalendar this tripId' dateOpt =
     (case dateOpt of
        None \<Rightarrow> False
      | Some d \<Rightarrow>
          (case map_of (trips this) tripId' of
             None \<Rightarrow> False
           | Some trip \<Rightarrow> \<not> isServiceActiveOnDate this (Trip.service_id trip) d))"

section \<open>Trips at a stop and trips connecting two stops\<close>

definition tripsForStop_step ::
  "GTFSParser \<Rightarrow> string \<Rightarrow> Date option \<Rightarrow> string \<times> StopTime list
     \<Rightarrow> string list \<times> string set \<Rightarrow> string list \<times> string set" where
  "tripsForStop_step this stopId dateOpt e acc =
     (if (\<exists>t \<in> set (snd e). StopTime.stop_id t = stopId) \<and> fst e \<notin> snd acc then
        (if filteredByCalendar this (fst e) dateOpt then acc
         else (fst acc @ [fst e], insert (fst e) (snd acc)))
      else acc)"

definition getTripsForStop :: "GTFSParser \<Rightarrow> string \<Rightarrow> Date option \<Rightarrow> string list" where
  "getTripsForStop this stopId dateOpt =
     fst (fold (tripsForStop_step this stopId dateOpt) (stopTimes this) ([], {}))"

text \<open>
  \<^verbatim>\<open>String.prototype.localeCompare\<close> belongs to the runtime: it compares by the
  collation of the locale, not by character code. On the alphabet of GTFS times, the
  digits and the colon, the collation puts the colon before every digit and the digits
  in their usual order, so \<open>1:00:00\<close> comes before \<open>10:00:00\<close>; a string comes after
  its proper prefixes. The model compares the lists of collation weights; characters
  other than the colon keep the order of their codes.
\<close>

definition isColon :: "char \<Rightarrow> bool" where
  "isColon c = (c = CHR '':'')"

definition collationWeight :: "char \<Rightarrow> nat" where
  "collationWeight c = (if isColon c then 0 else of_char c + 1)"

definition collationKey :: "string \<Rightarrow> nat list" where
  "collationKey s = map collationWeight s"

definition localeCompare :: "string \<Rightarrow> string \<Rightarrow> int" where
  "localeCompare a b =
     (if collationKey a < collationKey b then -1
      else if collationKey a = collationKey b then 0 else 1)"

definition byDeparture :: "TripMatch \<Rightarrow> TripMatch \<Rightarrow> int" where
  "byDeparture a b = localeCompare (departure_time (fromStop a)) (departure_time (fromStop b))"

text \<open>
  The body of the \<^verbatim>\<open>forEach\<close> of \<^verbatim>\<open>findTripsWithStops\<close>: what one entry of
  \<^verbatim>\<open>stopTimes\<close> pushes onto \<^verbatim>\<open>results\<close>. Both indices are in range where the
  array is read.
\<close>

definition tripMatch ::
  "GTFSParser \<Rightarrow> string \<Rightarrow> string \<Rightarrow> Date option \<Rightarrow> string \<times> StopTime list
     \<Rightarrow> TripMatch list" where
  "tripMatch this fromStopId toStopId dateOpt e =
     (if filteredByCalendar this (fst e) dateOpt then []
      else
        (let times = snd e;
             fromIdx = findIndex (\<lambda>t. StopTime.stop_id t = fromStopId) times;
             toIdx = findIndex (\<lambda>t. StopTime.stop_id t = toStopId) times
         in if fromIdx \<noteq> -1 \<and> toIdx \<noteq> -1 \<and> fromIdx < toIdx then
              [\<lparr> tripId = fst e,
                 fromStop = enrich this (times ! nat fromIdx),
                 toStop = enrich this (times ! nat toIdx),
                 intermediateStops = map (enrich this) (slice (fromIdx + 1) toIdx times) \<rparr>]
            else []))"

definition matchKey :: "GTFSParser \<Rightarrow> TripMatch \<Rightarrow> string" where
  "matchKey this result =
     (let trainNumber =
            (case map_of (trips this) (tripId result) of
               None \<Rightarrow> tripId result
             | Some trip \<Rightarrow>
                 if trip_short_name trip \<noteq> [] then trip_short_name trip else tripId result)
      in trainNumber @ ''-'' @ departure_time (fromStop result))"

definition findTripsWithStops_results ::
  "GTFSParser \<Rightarrow> string \<Rightarrow> string \<Rightarrow> Date option \<Rightarrow> TripMatch list" where
  "findTripsWithStops_results this fromStopId toStopId dateOpt =
     concat (map (tripMatch this fromStopId toStopId dateOpt) (stopTimes this))"

definition findTripsWithStops_sorted ::
  "GTFSParser \<Rightarrow> string \<Rightarrow> string \<Rightarrow> Date option \<Rightarrow> TripMatch list" where
  "findTripsWithStops_sorted this fromStopId toStopId dateOpt =
     array_sort byDeparture (findTripsWithStops_results this fromStopId toStopId dateOpt)"

definition findTripsWithStops ::
  "GTFSParser \<Rightarrow> string \<Rightarrow> string \<Rightarrow> Date option \<Rightarrow> TripMatch list" where
  "findTripsWithStops this fromStopId toStopId dateOpt =
     filter_unseen (matchKey this) {}
       (findTripsWithStops_sorted this fromStopId toStopId dateOpt)"

subsection \<open>Where \<^verbatim>\<open>findTripsWithStops\<close> could throw\<close>






section \<open>Strings and the three regular expressions\<close>

text \<open>
  A \<open>char\<close> is a code unit below 256. \<^verbatim>\<open>toLowerCase\<close> folds the capital letters
  of that range: \<open>A\<close> to \<open>Z\<close>, and \<open>U+00C0\<close> to \<open>U+00DE\<close> without the
  multiplication sign \<open>U+00D7\<close>, each to the code 32 above it. \<^verbatim>\<open>includes\<close>,
  \<^verbatim>\<open>startsWith\<close> and \<^verbatim>\<open>endsWith\<close> work on character lists.
\<close>

definition isDigit :: "char \<Rightarrow> bool" where
  "isDigit c = (CHR ''0'' \<le> c \<and> c \<le> CHR ''9'')"

definition isLowerAlpha :: "char \<Rightarrow> bool" where
  "isLowerAlpha c = (CHR ''a'' \<le> c \<and> c \<le> CHR ''z'')"

definition lowerChar :: "char \<Rightarrow> char" where
  "lowerChar c =
     (if (CHR ''A'' \<le> c \<and> c \<le> CHR ''Z'')
         \<or> (CHR 0xC0 \<le> c \<and> c \<le> CHR 0xDE \<and> c \<noteq> CHR 0xD7)
      then char_of (of_char c + (32 :: nat)) else c)"

definition toLowerCase :: "string \<Rightarrow> string" where
  "toLowerCase s = map lowerChar s"

fun startsWith :: "string \<Rightarrow> string \<Rightarrow> bool" where
  "startsWith s [] = True"
| "startsWith [] (q # qs) = False"
| "startsWith (c # s) (q # qs) = (c = q \<and> startsWith s qs)"

fun includes_str :: "string \<Rightarrow> string \<Rightarrow> bool" where
  "includes_str [] q = (q = [])"
| "includes_str (c # s) q = (startsWith (c # s) q \<or> includes_str s q)"

definition endsWith :: "string \<Rightarrow> string \<Rightarrow> bool" where
  "endsWith s q = startsWith (rev s) (rev q)"

text \<open>\<^verbatim>\<open>/^\d+$/.test(query)\<close>.\<close>

definition allDigits :: "string \<Rightarrow> bool" where
  "allDigits s = (s \<noteq> [] \<and> list_all isDigit s)"

text \<open>
  The time format of the feed: zero-padded \<open>HH:MM:SS\<close>, eight characters with the
  colons third and sixth and digits elsewhere (the hours may exceed 23).
\<close>

definition isTime :: "string \<Rightarrow> bool" where
  "isTime s =
     (map isColon s = [False, False, True, False, False, True, False, False]
      \<and> list_all (\<lambda>c. isColon c \<or> isDigit c) s)"

text \<open>
  \<^verbatim>\<open>queryLower.match(/^([a-z]+)(\d{1,4})$/)\<close>: the second group when the string is
  one or more lower-case letters followed by one to four digits.
\<close>

definition nameTrainMatch :: "string \<Rightarrow> string option" where
  "nameTrainMatch s =
     (let letters = takeWhile isLowerAlpha s; digits = dropWhile isLowerAlpha s
      in if letters \<noteq> [] \<and> 1 \<le> length digits \<and> length digits \<le> 4 \<and> list_all isDigit digits
         then Some digits else None)"

text \<open>
  \<^verbatim>\<open>tripId.match(/_(\d+)$/)\<close>: the digits that end the string, when there are some
  and an underscore stands before them.
\<close>

definition underscoreDigits :: "string \<Rightarrow> string option" where
  "underscoreDigits s =
     (let ds = rev (takeWhile isDigit (rev s)); rest = rev (dropWhile isDigit (rev s))
      in if ds \<noteq> [] \<and> rest \<noteq> [] \<and> last rest = CHR ''_'' then Some ds else None)"

definition getTrainNumber :: "GTFSParser \<Rightarrow> string \<Rightarrow> string" where
  "getTrainNumber this tripId' =
     (case map_of (trips this) tripId' of
        Some trip \<Rightarrow>
          if trip_short_name trip \<noteq> [] then trip_short_name trip
          else (case underscoreDigits tripId' of Some m \<Rightarrow> m | None \<Rightarrow> tripId')
      | None \<Rightarrow> (case underscoreDigits tripId' of Some m \<Rightarrow> m | None \<Rightarrow> tripId'))"

section \<open>Search\<close>

definition trainNumberQuery :: "string \<Rightarrow> string" where
  "trainNumberQuery query =
     (let queryLower = toLowerCase query
      in if startsWith queryLower ''amt'' then drop 3 queryLower
         else if allDigits query then query
         else (case nameTrainMatch queryLower of Some m \<Rightarrow> m | None \<Rightarrow> []))"

definition quoted :: "string \<Rightarrow> string" where
  "quoted s = [CHR 0x22] @ s @ [CHR 0x22]"

definition searchStop :: "string \<Rightarrow> Stop \<Rightarrow> SearchResult list" where
  "searchStop query stop =
     (let queryLower = toLowerCase query
      in if includes_str (toLowerCase (Stop.stop_name stop)) queryLower then
           [\<lparr> result_id = ''stop-name-'' @ Stop.stop_id stop, name = Stop.stop_name stop,
              subtitle = ''Name contains '' @ quoted query, result_type = station,
              data = StopData stop \<rparr>]
         else if includes_str (toLowerCase (Stop.stop_id stop)) queryLower then
           [\<lparr> result_id = ''stop-id-'' @ Stop.stop_id stop, name = Stop.stop_name stop,
              subtitle = ''Station matches '' @ quoted (Stop.stop_id stop),
              result_type = station, data = StopData stop \<rparr>]
         else [])"

definition searchRoute :: "string \<Rightarrow> Route \<Rightarrow> SearchResult list" where
  "searchRoute query r =
     (let queryLower = toLowerCase query
      in if includes_str (toLowerCase (route_long_name r)) queryLower
            \<or> (case route_short_name r of
                  None \<Rightarrow> False | Some sn \<Rightarrow> includes_str (toLowerCase sn) queryLower)
            \<or> includes_str (toLowerCase (Route.route_id r)) queryLower
         then
           [\<lparr> result_id = ''route-'' @ Route.route_id r, name = route_long_name r,
              subtitle = ''AMT'' @ Route.route_id r, result_type = route,
              data = RouteData r \<rparr>]
         else [])"

definition searchTrainNumber :: "GTFSParser \<Rightarrow> Trip \<Rightarrow> SearchResult" where
  "searchTrainNumber this trip =
     (let routeName = getRouteName this (Trip.route_id trip);
          displayName = (if routeName \<noteq> ''Unknown Route''
                         then routeName @ '' '' @ trip_short_name trip
                         else ''Train '' @ trip_short_name trip)
      in \<lparr> result_id = ''train-'' @ Trip.trip_id trip, name = displayName,
           subtitle = trip_headsign trip, result_type = train,
           data = TripRef (Trip.trip_id trip) \<rparr>)"

text \<open>
  The body of the last \<^verbatim>\<open>forEach\<close> of \<^verbatim>\<open>search\<close>: one entry of \<^verbatim>\<open>stopTimes\<close>
  reads the results pushed so far and pushes its own.
\<close>

definition searchTrip ::
  "GTFSParser \<Rightarrow> string \<Rightarrow> string \<times> StopTime list \<Rightarrow> SearchResult list
     \<Rightarrow> SearchResult list" where
  "searchTrip this query e results =
     (let tripId' = fst e; times = snd e;
          queryLower = toLowerCase query;
          trainNumber = getTrainNumber this tripId';
          trip = map_of (trips this) tripId';
          routeName = (case trip of
                         None \<Rightarrow> []
                       | Some t \<Rightarrow> if Trip.route_id t \<noteq> []
                                   then getRouteName this (Trip.route_id t) else []);
          displayName = (if routeName \<noteq> [] \<and> routeName \<noteq> ''Unknown Route''
                         then routeName @ '' '' @ trainNumber
                         else ''Train '' @ trainNumber);
          tripIdLower = toLowerCase tripId';
          results1 =
            (if trainNumberQuery query \<noteq> []
                \<and> endsWith tripIdLower (trainNumberQuery query)
                \<and> \<not> (\<exists>r \<in> set results. result_id r = ''train-'' @ tripId')
             then results @
               [\<lparr> result_id = ''tripid-'' @ tripId', name = displayName,
                  subtitle = (case trip of None \<Rightarrow> [] | Some t \<Rightarrow> trip_headsign t),
                  result_type = train, data = TripRef tripId' \<rparr>]
             else results);
          uniqueStops = filter_unseen (\<lambda>x. x) {} (map StopTime.stop_id times)
      in results1 @ concat (map (\<lambda>stopId.
           (case map_of (stops this) stopId of
              None \<Rightarrow> []
            | Some stop \<Rightarrow>
                if includes_str (toLowerCase (Stop.stop_name stop)) queryLower then
                  [\<lparr> result_id = ''trip-stop-'' @ tripId' @ ''-'' @ stopId,
                     name = displayName,
                     subtitle = ''Stops at '' @ quoted (Stop.stop_name stop),
                     result_type = train,
                     data = TripStopRef tripId' stopId (Stop.stop_name stop) \<rparr>]
                else [])) uniqueStops))"

text \<open>The array \<^verbatim>\<open>results\<close> as it stands before the final filter.\<close>

definition search_results :: "GTFSParser \<Rightarrow> string \<Rightarrow> SearchResult list" where
  "search_results this query =
     (let r1 = concat (map (\<lambda>e. searchStop query (snd e)) (stops this));
          r2 = r1 @ concat (map (\<lambda>e. searchRoute query (snd e)) (routes this));
          r3 = (if trainNumberQuery query \<noteq> [] then
                  r2 @ map (searchTrainNumber this)
                         (slice 0 5 (case map_of (tripsByNumber this) (trainNumberQuery query) of
                                       None \<Rightarrow> [] | Some ts \<Rightarrow> ts))
                else r2)
      in fold (searchTrip this query) (stopTimes this) r3)"

definition search :: "GTFSParser \<Rightarrow> string \<Rightarrow> SearchResult list" where
  "search this query = slice 0 20 (filter_unseen result_id {} (search_results this query))"


section \<open>Example snapshots\<close>

text \<open>
  The snapshot of the specification's scenario, extended: route \<open>R1\<close> "Cardinal", three
  stops, two trips \<open>T1\<close> and \<open>T2\<close> of train number \<open>1234\<close> on services \<open>S1\<close> and
  \<open>S2\<close> with the same stop-times (the last one leaves after midnight, at
  \<open>25:15:00\<close>), and a trip id \<open>TX\<close> that has stop-times but no trip record. Service
  \<open>S1\<close> does not run on Mondays but is added on Monday 2024-01-01; service \<open>S2\<close> runs
  on Mondays but is removed on that day.
\<close>

definition stopA :: Stop where
  "stopA = \<lparr> Stop.stop_id = ''A'', stop_name = ''Union Station'', stop_lat = 0, stop_lon = 0 \<rparr>"

definition stopB :: Stop where
  "stopB = \<lparr> Stop.stop_id = ''B'', stop_name = ''Central Station'', stop_lat = 0, stop_lon = 0 \<rparr>"

definition stopC :: Stop where
  "stopC = \<lparr> Stop.stop_id = ''C'', stop_name = ''Harbor'', stop_lat = 0, stop_lon = 0 \<rparr>"

definition routeR1 :: Route where
  "routeR1 = \<lparr> Route.route_id = ''R1'', route_long_name = ''Cardinal'',
               route_short_name = None \<rparr>"

definition stopTime :: "string \<Rightarrow> string \<Rightarrow> string \<Rightarrow> string \<Rightarrow> int \<Rightarrow> StopTime" where
  "stopTime t arr dep s n =
     \<lparr> StopTime.trip_id = t, arrival_time = arr, departure_time = dep, stop_id = s,
       stop_sequence = n \<rparr>"

definition timesOf :: "string \<Rightarrow> StopTime list" where
  "timesOf t =
     [stopTime t ''08:00:00'' ''08:00:00'' ''A'' 1,
      stopTime t ''08:40:00'' ''08:45:00'' ''C'' 2,
      stopTime t ''09:30:00'' ''25:15:00'' ''B'' 3]"

definition timesTX :: "StopTime list" where
  "timesTX =
     [stopTime ''TX'' ''07:00:00'' ''07:00:00'' ''A'' 1,
      stopTime ''TX'' ''07:50:00'' ''07:50:00'' ''B'' 2]"

definition tripOf :: "string \<Rightarrow> string \<Rightarrow> string \<Rightarrow> Trip" where
  "tripOf t n sv =
     \<lparr> Trip.route_id = ''R1'', trip_id = t, trip_short_name = n, trip_headsign = ''Chicago'',
       service_id = sv \<rparr>"

definition weekly :: "string \<Rightarrow> bool \<Rightarrow> CalendarEntry" where
  "weekly sv mon =
     \<lparr> CalendarEntry.service_id = sv, monday = mon, tuesday = True, wednesday = True,
       thursday = True, friday = True, saturday = True, sunday = True,
       start_date = 20240101, end_date = 20241231 \<rparr>"

definition demoParser :: GTFSParser where
  "demoParser =
     overrideData emptyParser [routeR1] [stopA, stopB, stopC]
       [(''T1'', timesOf ''T1''), (''T2'', timesOf ''T2''), (''TX'', timesTX)] []
       [tripOf ''T1'' ''1234'' ''S1'', tripOf ''T2'' ''1234'' ''S2'']
       [weekly ''S1'' False, weekly ''S2'' True]
       [\<lparr> CalendarDateException.service_id = ''S1'', date = 20240101, exception_type = 1 \<rparr>,
        \<lparr> CalendarDateException.service_id = ''S2'', date = 20240101, exception_type = 2 \<rparr>]"

text \<open>Monday 2024-01-01 and Monday 2024-01-08.\<close>

definition monday1 :: Date where
  "monday1 = \<lparr> getFullYear = 2024, getMonth = 0, getDate = 1, getDay = 1 \<rparr>"

definition monday8 :: Date where
  "monday8 = \<lparr> getFullYear = 2024, getMonth = 0, getDate = 8, getDay = 1 \<rparr>"

text \<open>The same snapshot loaded without any calendar file.\<close>

definition noCalendarParser :: GTFSParser where
  "noCalendarParser =
     overrideData emptyParser [routeR1] [stopA, stopB, stopC]
       [(''T1'', timesOf ''T1'')] [] [tripOf ''T1'' ''1234'' ''S1''] [] []"

text \<open>
  A snapshot whose only trip stores its stop-times out of sequence order: \<open>B\<close> (sequence
  2), then \<open>A\<close> (sequence 1), then \<open>C\<close> (sequence 3).
\<close>

definition unsortedParser :: GTFSParser where
  "unsortedParser =
     overrideData emptyParser [routeR1] [stopA, stopB, stopC]
       [(''T9'', [stopTime ''T9'' ''08:30:00'' ''08:30:00'' ''B'' 2,
                  stopTime ''T9'' ''08:00:00'' ''08:00:00'' ''A'' 1,
                  stopTime ''T9'' ''09:00:00'' ''09:00:00'' ''C'' 3])] [] [] [] []"

text \<open>
  A snapshot with two trips whose records carry no train number (an empty
  \<^verbatim>\<open>trip_short_name\<close>) and that leave \<open>A\<close> at the same time.
\<close>

definition unnumberedParser :: GTFSParser where
  "unnumberedParser =
     overrideData emptyParser [routeR1] [stopA, stopB, stopC]
       [(''T1'', timesOf ''T1''), (''T2'', timesOf ''T2'')] []
       [tripOf ''T1'' [] ''S1'', tripOf ''T2'' [] ''S1''] [] []"

text \<open>
  A snapshot whose times are not zero-padded: trip \<open>P\<close> leaves \<open>A\<close> at \<open>10:00:00\<close>
  and trip \<open>Q\<close> at \<open>1:00:00\<close>.
\<close>

definition unpaddedParser :: GTFSParser where
  "unpaddedParser =
     overrideData emptyParser [routeR1] [stopA, stopB, stopC]
       [(''P'', [stopTime ''P'' ''10:00:00'' ''10:00:00'' ''A'' 1,
                 stopTime ''P'' ''11:00:00'' ''11:00:00'' ''B'' 2]),
        (''Q'', [stopTime ''Q'' ''1:00:00'' ''1:00:00'' ''A'' 1,
                 stopTime ''Q'' ''2:00:00'' ''2:00:00'' ''B'' 2])] []
       [tripOf ''P'' ''10'' ''S1'', tripOf ''Q'' ''20'' ''S1''] [] []"

section \<open>What a load leaves in the parser\<close>

lemma overrideData_fields:
  "routes (overrideData this rs ss sts shs ts cal cds) = fold set_route rs []"
  "stops (overrideData this rs ss sts shs ts cal cds) = fold set_stop ss []"
  "stopTimes (overrideData this rs ss sts shs ts cal cds) = fold set_entry sts []"
  "shapes (overrideData this rs ss sts shs ts cal cds) = fold set_entry shs []"
  "trips (overrideData this rs ss sts shs ts cal cds) = fst (fold set_trip ts ([], []))"
  "tripsByNumber (overrideData this rs ss sts shs ts cal cds) = snd (fold set_trip ts ([], []))"
  "calendarEntries (overrideData this rs ss sts shs ts cal cds) = fold set_calendar cal []"
  "calendarDateExceptions (overrideData this rs ss sts shs ts cal cds) =
     fold set_exception cds []"
  "hasCalendarData (overrideData this rs ss sts shs ts cal cds) =
     (fold set_calendar cal [] \<noteq> [] \<or> fold set_exception cds [] \<noteq> [])"
  "isLoaded (overrideData this rs ss sts shs ts cal cds) =
     (fold set_route rs [] \<noteq> [] \<and> fold set_stop ss [] \<noteq> [])"
  by (simp_all add: overrideData_def Let_def)

section \<open>Arrays: facts\<close>

lemma insert_by_insort_key:
  assumes "\<And>x y. (cmp x y \<le> 0) = (f x \<le> f y)"
  shows "insert_by cmp x ys = insort_key f x ys"
  by (induction ys) (simp_all add: assms)

lemma array_sort_sort_key:
  assumes "\<And>x y. (cmp x y \<le> 0) = (f x \<le> f y)"
  shows "array_sort cmp xs = sort_key f xs"
proof -
  have "insert_by cmp = insort_key f"
    by (intro ext) (rule insert_by_insort_key [OF assms])
  then show ?thesis by (simp add: array_sort_def sort_key_def)
qed

lemma array_sort_bySequence: "array_sort bySequence xs = sort_key stop_sequence xs"
  by (rule array_sort_sort_key) (simp add: bySequence_def)

lemma array_sort_byDeparture:
  "array_sort byDeparture xs = sort_key (\<lambda>r. collationKey (departure_time (fromStop r))) xs"
  by (rule array_sort_sort_key) (auto simp: byDeparture_def localeCompare_def)

lemma stop_sequence_enrich [simp]: "stop_sequence (enrich this t) = stop_sequence t"
  by (simp add: enrich_def)

lemma truncate_enrich [simp]: "StopTime.truncate (enrich this t) = t"
  by (simp add: enrich_def StopTime.truncate_def)




lemma findIndex_found:
  assumes "findIndex P xs \<noteq> -1"
  shows "0 \<le> findIndex P xs \<and> nat (findIndex P xs) < length xs
         \<and> P (xs ! nat (findIndex P xs))
         \<and> (\<forall>j < nat (findIndex P xs). \<not> P (xs ! j))"
  using assms
proof (induction xs)
  case Nil
  then show ?case by simp
next
  case (Cons x xs)
  show ?case
  proof (cases "P x")
    case True
    then show ?thesis by simp
  next
    case False
    with Cons.prems have ne: "findIndex P xs \<noteq> -1"
      by (auto simp: Let_def split: if_splits)
    from Cons.IH [OF ne] have ih: "0 \<le> findIndex P xs" "nat (findIndex P xs) < length xs"
      "P (xs ! nat (findIndex P xs))" "\<forall>j < nat (findIndex P xs). \<not> P (xs ! j)"
      by simp_all
    have eq: "findIndex P (x # xs) = findIndex P xs + 1"
      using False ne by (simp add: Let_def)
    have n: "nat (findIndex P xs + 1) = Suc (nat (findIndex P xs))"
      using ih(1) by simp
    show ?thesis
      unfolding eq n using ih False
      by (auto simp: nth_Cons split: nat.splits)
  qed
qed

lemma slice_0: "0 \<le> n \<Longrightarrow> slice 0 n xs = take (nat n) xs"
  by (auto simp: slice_def Let_def min_def)

lemma set_slice: "set (slice i j xs) \<subseteq> set xs"
  unfolding slice_def Let_def
  by (meson set_take_subset set_drop_subset subset_trans)

lemma slice_1_m1: "slice 1 (-1) xs = butlast (tl xs)"
proof (cases "length xs \<le> 1")
  case True
  then show ?thesis
    by (cases xs) (auto simp: slice_def Let_def)
next
  case False
  then have "slice 1 (-1) xs = take (length xs - 2) (drop 1 xs)"
    by (auto simp: slice_def Let_def max_def min_def nat_diff_distrib intro!: arg_cong2[where f=take])
  also have "\<dots> = butlast (tl xs)"
    by (simp add: butlast_conv_take drop_Suc numeral_2_eq_2)
  finally show ?thesis .
qed

lemma filter_unseen_subseq: "subseq (filter_unseen key seen xs) xs"
  by (induction xs arbitrary: seen) auto

lemma filter_unseen_keys:
  "key ` set (filter_unseen key seen xs) = key ` set xs - seen"
  by (induction xs arbitrary: seen) auto

lemma filter_unseen_distinct: "distinct (map key (filter_unseen key seen xs))"
proof (induction xs arbitrary: seen)
  case Nil
  then show ?case by simp
next
  case (Cons x xs)
  have "key x \<notin> key ` set (filter_unseen key (insert (key x) seen) xs)"
    by (simp add: filter_unseen_keys)
  with Cons show ?case by auto
qed

lemma filter_unseen_first:
  "x \<in> set (filter_unseen key seen xs) \<longleftrightarrow>
     (\<exists>ys zs. xs = ys @ x # zs \<and> key x \<notin> seen \<and> key x \<notin> key ` set ys)"
proof (induction xs arbitrary: seen)
  case Nil
  then show ?case by simp
next
  case (Cons a xs)
  show ?case
  proof
    assume L: "x \<in> set (filter_unseen key seen (a # xs))"
    show "\<exists>ys zs. a # xs = ys @ x # zs \<and> key x \<notin> seen \<and> key x \<notin> key ` set ys"
    proof (cases "key a \<in> seen")
      case True
      with L have "x \<in> set (filter_unseen key seen xs)" by simp
      then obtain ys zs where "xs = ys @ x # zs" "key x \<notin> seen" "key x \<notin> key ` set ys"
        using Cons.IH by blast
      with True have "a # xs = (a # ys) @ x # zs \<and> key x \<notin> seen \<and> key x \<notin> key ` set (a # ys)"
        by auto
      then show ?thesis by blast
    next
      case False
      with L consider "x = a" | "x \<in> set (filter_unseen key (insert (key a) seen) xs)"
        by auto
      then show ?thesis
      proof cases
        case 1
        with False have "a # xs = [] @ x # xs \<and> key x \<notin> seen \<and> key x \<notin> key ` set []"
          by simp
        then show ?thesis by blast
      next
        case 2
        then obtain ys zs where "xs = ys @ x # zs" "key x \<notin> insert (key a) seen"
          "key x \<notin> key ` set ys"
          using Cons.IH by blast
        then have "a # xs = (a # ys) @ x # zs \<and> key x \<notin> seen \<and> key x \<notin> key ` set (a # ys)"
          by auto
        then show ?thesis by blast
      qed
    qed
  next
    assume "\<exists>ys zs. a # xs = ys @ x # zs \<and> key x \<notin> seen \<and> key x \<notin> key ` set ys"
    then obtain ys zs where R: "a # xs = ys @ x # zs" "key x \<notin> seen" "key x \<notin> key ` set ys"
      by blast
    show "x \<in> set (filter_unseen key seen (a # xs))"
    proof (cases ys)
      case Nil
      with R show ?thesis by auto
    next
      case (Cons b ys')
      with R have a: "b = a" "xs = ys' @ x # zs" "key x \<noteq> key a" "key x \<notin> key ` set ys'"
        by auto
      show ?thesis
      proof (cases "key a \<in> seen")
        case True
        then show ?thesis using Cons.IH [of seen] a R(2) by auto
      next
        case False
        have "x \<in> set (filter_unseen key (insert (key a) seen) xs)"
          using Cons.IH [of "insert (key a) seen"] a R(2) by auto
        with False show ?thesis by simp
      qed
    qed
  qed
qed


section \<open>Stop-times of a trip: order\<close>

text \<open>
  Claim C7. When the stop-times stored for a trip id (none, for an unknown id) have
  pairwise different \<^verbatim>\<open>stop_sequence\<close> numbers, \<^verbatim>\<open>getStopTimesForTrip\<close> returns
  them with strictly increasing \<^verbatim>\<open>stop_sequence\<close>.
\<close>

theorem stopTimes_strictly_increasing:
  assumes "distinct (map stop_sequence
             (case map_of (stopTimes this) tid of None \<Rightarrow> [] | Some ts \<Rightarrow> ts))"
  shows "sorted_wrt (<) (map stop_sequence (getStopTimesForTrip this tid))"
proof -
  let ?ts = "case map_of (stopTimes this) tid of None \<Rightarrow> [] | Some ts \<Rightarrow> ts"
  let ?out = "sort_key stop_sequence (map (enrich this) ?ts)"
  have out: "getStopTimesForTrip this tid = ?out"
    by (simp add: getStopTimesForTrip_def array_sort_bySequence)
  have "mset (map stop_sequence ?out) = mset (map stop_sequence ?ts)"
    by (simp add: multiset.map_comp comp_def)
  then have "distinct (map stop_sequence ?out)"
    using assms by (metis mset_eq_imp_distinct_iff)
  moreover have "sorted (map stop_sequence ?out)"
    by (rule sorted_sort_key)
  ultimately show ?thesis
    by (simp add: out strict_sorted_iff)
qed

theorem stopTimes_strictly_increasing_witness:
  "map stop_sequence (case map_of (stopTimes unsortedParser) ''T9'' of
                        None \<Rightarrow> [] | Some ts \<Rightarrow> ts) = [2, 1, 3]
   \<and> map stop_sequence (getStopTimesForTrip unsortedParser ''T9'') = [1, 2, 3]
   \<and> sorted_wrt (<) (map stop_sequence (getStopTimesForTrip unsortedParser ''T9''))"
proof -
  have stored: "map stop_sequence (case map_of (stopTimes unsortedParser) ''T9'' of
                        None \<Rightarrow> [] | Some ts \<Rightarrow> ts) = [2, 1, 3]"
    by code_simp
  have uniq: "distinct (map stop_sequence (case map_of (stopTimes unsortedParser) ''T9'' of
                        None \<Rightarrow> [] | Some ts \<Rightarrow> ts))"
    by (simp add: stored)
  have out: "map stop_sequence (getStopTimesForTrip unsortedParser ''T9'') = [1, 2, 3]"
    by code_simp
  show ?thesis
    using stopTimes_strictly_increasing [OF uniq] stored out by simp
qed

section \<open>Service calendar: facts\<close>

lemma update_nonempty: "AList.update k v m \<noteq> []"
  by (cases m) auto

lemma fold_set_calendar_nonempty:
  "(fold set_calendar cal m \<noteq> []) =
     (m \<noteq> [] \<or> (\<exists>e \<in> set cal. CalendarEntry.service_id e \<noteq> []))"
  by (induction cal arbitrary: m) (auto simp: set_calendar_def update_nonempty)

lemma fold_set_exception_nonempty:
  "(fold set_exception cds m \<noteq> []) =
     (m \<noteq> [] \<or> (\<exists>x \<in> set cds. CalendarDateException.service_id x \<noteq> []))"
  by (induction cds arbitrary: m) (auto simp: set_exception_def Let_def update_nonempty)

lemma set_exception_no_empty_key:
  "[] \<notin> fst ` set m \<Longrightarrow> [] \<notin> fst ` set (set_exception x m)"
  by (auto simp: set_exception_def Let_def dom_update)

lemma fold_set_exception_no_empty_key:
  "[] \<notin> fst ` set m \<Longrightarrow> [] \<notin> fst ` set (fold set_exception cds m)"
proof (induction cds arbitrary: m)
  case Nil
  then show ?case by simp
next
  case (Cons x cds)
  from Cons.prems have "[] \<notin> fst ` set (set_exception x m)"
    by (rule set_exception_no_empty_key)
  then show ?case using Cons.IH by simp
qed

lemma loaded_exceptions_key_nonempty:
  assumes "map_of (calendarDateExceptions (overrideData this rs ss sts shs ts cal cds)) S
             = Some exc"
  shows "S \<noteq> []"
proof
  assume "S = []"
  have "[] \<notin> fst ` set (fold set_exception cds [])"
    by (rule fold_set_exception_no_empty_key) simp
  then have "map_of (fold set_exception cds []) [] = None"
    by (simp add: map_of_eq_None_iff)
  with assms \<open>S = []\<close> show False
    by (simp add: overrideData_fields)
qed

text \<open>
  Claim C3. In a parser loaded by \<^verbatim>\<open>overrideData\<close>, when the exception index holds
  an entry for service \<open>S\<close> on the date \<open>D\<close>, \<^verbatim>\<open>isServiceActiveOnDate\<close> answers
  from the exception alone: true for type 1 (added), false for type 2 (removed),
  whatever the weekly pattern and the date range of the service's calendar entry are.
\<close>

theorem exception_precedence:
  assumes load: "p = overrideData this rs ss sts shs ts cal cds"
    and exc: "map_of (calendarDateExceptions p) S = Some exceptions"
    and ty: "map_of exceptions (dateInt D) = Some ty"
  shows "(ty = 1 \<longrightarrow> isServiceActiveOnDate p S D) \<and> (ty = 2 \<longrightarrow> \<not> isServiceActiveOnDate p S D)"
proof -
  have S: "S \<noteq> []"
    using exc unfolding load by (rule loaded_exceptions_key_nonempty)
  have "calendarDateExceptions p \<noteq> []"
    using exc by auto
  then have has: "hasCalendarData p"
    unfolding load by (simp add: overrideData_fields)
  show ?thesis
    using S has exc ty by (simp add: isServiceActiveOnDate_def)
qed

theorem exception_precedence_witness:
  "isServiceActiveOnDate demoParser ''S1'' monday1
   \<and> \<not> isServiceActiveOnDate demoParser ''S1'' monday8
   \<and> \<not> isServiceActiveOnDate demoParser ''S2'' monday1
   \<and> isServiceActiveOnDate demoParser ''S2'' monday8"
proof -
  have x1: "map_of (calendarDateExceptions demoParser) ''S1'' = Some [(20240101, 1)]"
    by (simp add: demoParser_def overrideData_fields set_exception_def)
  have x2: "map_of (calendarDateExceptions demoParser) ''S2'' = Some [(20240101, 2)]"
    by (simp add: demoParser_def overrideData_fields set_exception_def)
  have d: "map_of [(20240101, 1)] (dateInt monday1) = Some (1::int)"
    "map_of [(20240101, 2)] (dateInt monday1) = Some (2::int)"
    by (simp_all add: dateInt_def monday1_def)
  have a: "isServiceActiveOnDate demoParser ''S1'' monday1"
    using exception_precedence [OF demoParser_def x1 d(1)] by simp
  have b: "\<not> isServiceActiveOnDate demoParser ''S2'' monday1"
    using exception_precedence [OF demoParser_def x2 d(2)] by simp
  have c: "\<not> isServiceActiveOnDate demoParser ''S1'' monday8"
    by code_simp
  have e: "isServiceActiveOnDate demoParser ''S2'' monday8"
    by code_simp
  show ?thesis using a b c e by simp
qed

text \<open>
  Claim C4. While the flag \<^verbatim>\<open>hasCalendarData\<close> is false, \<^verbatim>\<open>isServiceActiveOnDate\<close>
  is true for every service id and date; for the empty service id it is true whatever
  the flag is; and a load leaves the flag false exactly when it ingested no calendar
  entry and no exception (rows without a service id are skipped).
\<close>

theorem calendar_fallback:
  "(\<not> hasCalendarData p \<longrightarrow> isServiceActiveOnDate p serviceId D)
   \<and> isServiceActiveOnDate p [] D
   \<and> hasCalendarData (overrideData this rs ss sts shs ts cal cds) =
       ((\<exists>e \<in> set cal. CalendarEntry.service_id e \<noteq> [])
        \<or> (\<exists>x \<in> set cds. CalendarDateException.service_id x \<noteq> []))"
  by (simp add: isServiceActiveOnDate_def overrideData_fields
      fold_set_calendar_nonempty fold_set_exception_nonempty)

theorem calendar_fallback_witness:
  "\<not> hasCalendarData noCalendarParser
   \<and> isServiceActiveOnDate noCalendarParser ''S1'' monday1
   \<and> isServiceActiveOnDate noCalendarParser [] monday1
   \<and> hasCalendarData demoParser
   \<and> isServiceActiveOnDate demoParser [] monday8"
proof -
  have n: "\<not> hasCalendarData noCalendarParser"
    by (simp add: noCalendarParser_def overrideData_fields)
  have h: "hasCalendarData demoParser"
    by (simp add: demoParser_def overrideData_fields set_calendar_def weekly_def)
  show ?thesis
    using n h calendar_fallback [of noCalendarParser "''S1''" monday1]
      calendar_fallback [of noCalendarParser "[]" monday1]
      calendar_fallback [of demoParser "[]" monday8]
    by simp
qed

section \<open>Trip queries: facts\<close>

lemma tripMatch_cases:
  assumes "m \<in> set (tripMatch this a b dateOpt e)"
  shows "\<not> filteredByCalendar this (fst e) dateOpt \<and> tripId m = fst e
         \<and> (\<exists>i j. i < j \<and> j < length (snd e)
               \<and> StopTime.stop_id (snd e ! i) = a \<and> StopTime.stop_id (snd e ! j) = b
               \<and> fromStop m = enrich this (snd e ! i) \<and> toStop m = enrich this (snd e ! j)
               \<and> intermediateStops m
                   = map (enrich this) (slice (int i + 1) (int j) (snd e)))"
proof -
  let ?fi = "findIndex (\<lambda>t. StopTime.stop_id t = a) (snd e)"
  let ?ti = "findIndex (\<lambda>t. StopTime.stop_id t = b) (snd e)"
  from assms have nf: "\<not> filteredByCalendar this (fst e) dateOpt"
    and g: "?fi \<noteq> -1" "?ti \<noteq> -1" "?fi < ?ti"
    and m: "m = \<lparr> tripId = fst e, fromStop = enrich this (snd e ! nat ?fi),
                  toStop = enrich this (snd e ! nat ?ti),
                  intermediateStops = map (enrich this) (slice (?fi + 1) ?ti (snd e)) \<rparr>"
    by (auto simp: tripMatch_def Let_def split: if_splits)
  from findIndex_found [OF g(1)] have f: "0 \<le> ?fi" "StopTime.stop_id (snd e ! nat ?fi) = a"
    by simp_all
  from findIndex_found [OF g(2)] have t: "0 \<le> ?ti" "nat ?ti < length (snd e)"
    "StopTime.stop_id (snd e ! nat ?ti) = b"
    by simp_all
  have "nat ?fi < nat ?ti" using g(3) f(1) by simp
  moreover have "int (nat ?fi) + 1 = ?fi + 1" "int (nat ?ti) = ?ti"
    using f(1) t(1) by simp_all
  ultimately show ?thesis
    using nf m f(2) t(2,3) by (intro conjI exI [of _ "nat ?fi"] exI [of _ "nat ?ti"]) simp_all
qed

lemma filter_unseen_subset: "set (filter_unseen key seen xs) \<subseteq> set xs"
  by (induction xs arbitrary: seen) auto

lemma findTripsWithStops_subset:
  "set (findTripsWithStops this a b dateOpt)
     \<subseteq> set (findTripsWithStops_results this a b dateOpt)"
proof -
  have "set (findTripsWithStops this a b dateOpt)
          \<subseteq> set (findTripsWithStops_sorted this a b dateOpt)"
    unfolding findTripsWithStops_def
    by (rule filter_unseen_subset)
  then show ?thesis
    by (simp add: findTripsWithStops_sorted_def array_sort_byDeparture)
qed

lemma findTripsWithStops_origin:
  assumes "m \<in> set (findTripsWithStops this a b dateOpt)"
  shows "\<exists>e \<in> set (stopTimes this). m \<in> set (tripMatch this a b dateOpt e)"
  using assms findTripsWithStops_subset [of this a b dateOpt]
  by (auto simp: findTripsWithStops_results_def)

text \<open>
  Claim C8. Every retrieval operation returns stop-times whose fields, the two added
  ones apart, are those of a stored stop-time: \<^const>\<open>StopTime.truncate\<close> of a returned
  stop-time is a stop-time of the trip's stored list, so its \<^verbatim>\<open>arrival_time\<close> and
  \<^verbatim>\<open>departure_time\<close> strings are the stored ones, hours of 24 and more included.
\<close>

theorem retrieval_keeps_times:
  "mset (map StopTime.truncate (getStopTimesForTrip this tid))
     = mset (case map_of (stopTimes this) tid of None \<Rightarrow> [] | Some ts \<Rightarrow> ts)
   \<and> set (map StopTime.truncate (getIntermediateStops this tid))
       \<subseteq> set (case map_of (stopTimes this) tid of None \<Rightarrow> [] | Some ts \<Rightarrow> ts)
   \<and> (\<forall>m \<in> set (findTripsWithStops this a b dateOpt).
         \<exists>ts. (tripId m, ts) \<in> set (stopTimes this)
            \<and> StopTime.truncate (fromStop m) \<in> set ts
            \<and> StopTime.truncate (toStop m) \<in> set ts
            \<and> set (map StopTime.truncate (intermediateStops m)) \<subseteq> set ts)"
proof (intro conjI ballI)
  show "mset (map StopTime.truncate (getStopTimesForTrip this tid))
     = mset (case map_of (stopTimes this) tid of None \<Rightarrow> [] | Some ts \<Rightarrow> ts)"
    by (simp add: getStopTimesForTrip_def array_sort_bySequence multiset.map_comp comp_def)
next
  show "set (map StopTime.truncate (getIntermediateStops this tid))
       \<subseteq> set (case map_of (stopTimes this) tid of None \<Rightarrow> [] | Some ts \<Rightarrow> ts)"
    using set_slice [of 1 "-1" "case map_of (stopTimes this) tid of None \<Rightarrow> [] | Some ts \<Rightarrow> ts"]
    by (simp add: getIntermediateStops_def array_sort_bySequence image_image)
next
  fix m assume "m \<in> set (findTripsWithStops this a b dateOpt)"
  then obtain e where e: "e \<in> set (stopTimes this)" "m \<in> set (tripMatch this a b dateOpt e)"
    using findTripsWithStops_origin by blast
  from tripMatch_cases [OF e(2)] obtain i j where ij: "tripId m = fst e" "i < j"
    "j < length (snd e)" "fromStop m = enrich this (snd e ! i)"
    "toStop m = enrich this (snd e ! j)"
    "intermediateStops m = map (enrich this) (slice (int i + 1) (int j) (snd e))"
    by blast
  have "(tripId m, snd e) \<in> set (stopTimes this)"
    using e(1) ij(1) by simp
  moreover have "StopTime.truncate (fromStop m) \<in> set (snd e)"
    using ij by simp
  moreover have "StopTime.truncate (toStop m) \<in> set (snd e)"
    using ij by simp
  moreover have "set (map StopTime.truncate (intermediateStops m)) \<subseteq> set (snd e)"
    using set_slice [of "int i + 1" "int j" "snd e"] ij(6) by (simp add: image_image)
  ultimately show "\<exists>ts. (tripId m, ts) \<in> set (stopTimes this)
            \<and> StopTime.truncate (fromStop m) \<in> set ts
            \<and> StopTime.truncate (toStop m) \<in> set ts
            \<and> set (map StopTime.truncate (intermediateStops m)) \<subseteq> set ts"
    by blast
qed


theorem retrieval_keeps_times_witness:
  "last (findTripsWithStops demoParser ''A'' ''B'' None)
     \<in> set (findTripsWithStops demoParser ''A'' ''B'' None)
   \<and> departure_time (toStop (last (findTripsWithStops demoParser ''A'' ''B'' None)))
       = ''25:15:00''
   \<and> (\<exists>ts. (tripId (last (findTripsWithStops demoParser ''A'' ''B'' None)), ts)
               \<in> set (stopTimes demoParser)
          \<and> StopTime.truncate (toStop (last (findTripsWithStops demoParser ''A'' ''B'' None)))
               \<in> set ts)
   \<and> map departure_time (getStopTimesForTrip demoParser ''T1'')
       = [''08:00:00'', ''08:45:00'', ''25:15:00'']"
proof -
  let ?out = "findTripsWithStops demoParser ''A'' ''B'' None"
  have "?out \<noteq> []" by code_simp
  then have mem: "last ?out \<in> set ?out" by (rule last_in_set)
  have dep: "departure_time (toStop (last ?out)) = ''25:15:00''" by code_simp
  have all: "map departure_time (getStopTimesForTrip demoParser ''T1'')
       = [''08:00:00'', ''08:45:00'', ''25:15:00'']" by code_simp
  from retrieval_keeps_times [of demoParser "''T1''" "''A''" "''B''" None] mem
  have "\<exists>ts. (tripId (last ?out), ts) \<in> set (stopTimes demoParser)
          \<and> StopTime.truncate (toStop (last ?out)) \<in> set ts"
    by blast
  with mem dep all show ?thesis by blast
qed

section \<open>Absent ids\<close>








subsection \<open>The array reads of \<^verbatim>\<open>findTripsWithStops\<close> stay inside the array\<close>







section \<open>Stored order and sequence order\<close>

lemma intermediateStops_length:
  "length (getIntermediateStops this tid) = length (getStopTimesForTrip this tid) - 2"
  by (simp add: getIntermediateStops_def getStopTimesForTrip_def array_sort_bySequence
      slice_1_m1)

lemma intermediateStops_of_sorted:
  assumes "sorted (map stop_sequence
             (case map_of (stopTimes this) tid of None \<Rightarrow> [] | Some ts \<Rightarrow> ts))"
  shows "getIntermediateStops this tid = butlast (tl (getStopTimesForTrip this tid))"
proof -
  let ?ts = "case map_of (stopTimes this) tid of None \<Rightarrow> [] | Some ts \<Rightarrow> ts"
  let ?es = "map (enrich this) ?ts"
  have s: "sorted (map stop_sequence ?es)"
    using assms by (simp add: comp_def)
  then have "sorted (butlast (tl (map stop_sequence ?es)))"
    by (intro sorted_butlast sorted_tl)
  then have s': "sorted (map stop_sequence (butlast (tl ?es)))"
    by (simp add: map_butlast map_tl)
  have "getIntermediateStops this tid = sort_key stop_sequence (butlast (tl ?es))"
    by (simp add: getIntermediateStops_def array_sort_bySequence slice_1_m1 map_butlast map_tl)
  also have "\<dots> = butlast (tl ?es)"
    by (rule sort_key_id_if_sorted [OF s'])
  also have "?es = sort_key stop_sequence ?es"
    by (rule sort_key_id_if_sorted [OF s, symmetric])
  also have "\<dots> = getStopTimesForTrip this tid"
    by (simp add: getStopTimesForTrip_def array_sort_bySequence)
  finally show ?thesis .
qed

lemma findTripsWithStops_of_sorted:
  assumes "\<forall>e \<in> set (stopTimes this). sorted_wrt (<) (map stop_sequence (snd e))"
    and "m \<in> set (findTripsWithStops this a b dateOpt)"
  shows "stop_sequence (fromStop m) < stop_sequence (toStop m)"
proof -
  from assms(2) obtain e where e: "e \<in> set (stopTimes this)"
    "m \<in> set (tripMatch this a b dateOpt e)"
    using findTripsWithStops_origin by blast
  from tripMatch_cases [OF e(2)] obtain i j where ij: "i < j" "j < length (snd e)"
    "fromStop m = enrich this (snd e ! i)" "toStop m = enrich this (snd e ! j)"
    by blast
  from assms(1) e(1) have "sorted_wrt (<) (map stop_sequence (snd e))" by blast
  then have "map stop_sequence (snd e) ! i < map stop_sequence (snd e) ! j"
    using ij(1,2) by (simp add: sorted_wrt_iff_nth_less)
  then show ?thesis using ij by simp
qed

text \<open>
  Claim C1. \<^verbatim>\<open>findTripsWithStops\<close> compares the positions of the two stops in the
  stored array, not their \<^verbatim>\<open>stop_sequence\<close> numbers. On the trip stored as \<open>B\<close>
  (sequence 2), \<open>A\<close> (sequence 1), \<open>C\<close> (sequence 3), the query from \<open>B\<close> to \<open>A\<close>
  returns the trip with a "from" sequence number of 2 and a "to" sequence number of 1.
\<close>

theorem findTripsWithStops_against_sequence:
  "map tripId (findTripsWithStops unsortedParser ''B'' ''A'' None) = [''T9'']
   \<and> map (stop_sequence \<circ> fromStop) (findTripsWithStops unsortedParser ''B'' ''A'' None) = [2]
   \<and> map (stop_sequence \<circ> toStop) (findTripsWithStops unsortedParser ''B'' ''A'' None) = [1]"
  by code_simp

text \<open>
  Claim C2. \<^verbatim>\<open>getIntermediateStops\<close> removes the first and last elements of the stored
  array and sorts what is left, where \<^verbatim>\<open>getStopTimesForTrip\<close> sorts the whole array.
  On the trip stored as sequence 2, 1, 3 it returns the stop of sequence 1, the trip's
  origin, while the sorted stop-times without their first and last are the stop of
  sequence 2.
\<close>

theorem intermediateStops_slice_before_sort:
  "map stop_sequence (getStopTimesForTrip unsortedParser ''T9'') = [1, 2, 3]
   \<and> map stop_sequence (butlast (tl (getStopTimesForTrip unsortedParser ''T9''))) = [2]
   \<and> map stop_sequence (getIntermediateStops unsortedParser ''T9'') = [1]"
  by code_simp

section \<open>Connecting trips: order and deduplication\<close>

lemma collationWeight_order:
  assumes "isColon x = isColon y"
  shows "(collationWeight x < collationWeight y) = (x < y)"
    and "(collationWeight x = collationWeight y) = (x = y)"
  using assms by (auto simp: collationWeight_def less_char_def isColon_def)

lemma collationKey_same_shape:
  assumes "map isColon a = map isColon b"
  shows "(collationKey a \<le> collationKey b) = (a \<le> b)"
  using assms
proof (induction a arbitrary: b)
  case Nil
  then show ?case by (simp add: collationKey_def)
next
  case (Cons x a)
  then obtain y b' where b: "b = y # b'" by (cases b) auto
  with Cons.prems have sh: "isColon x = isColon y" "map isColon a = map isColon b'"
    by simp_all
  from Cons.IH [OF sh(2)] have ih: "(map collationWeight a \<le> map collationWeight b') = (a \<le> b')"
    by (simp add: collationKey_def)
  show ?case
    unfolding b by (simp add: collationKey_def collationWeight_order [OF sh(1)] ih)
qed

lemma collationKey_times:
  "isTime a \<Longrightarrow> isTime b \<Longrightarrow> (collationKey a \<le> collationKey b) = (a \<le> b)"
  by (rule collationKey_same_shape) (simp add: isTime_def)

lemma findTripsWithStops_departures:
  assumes "m \<in> set (findTripsWithStops_results this a b dateOpt)"
  shows "\<exists>e \<in> set (stopTimes this). \<exists>t \<in> set (snd e).
           departure_time (fromStop m) = departure_time t"
proof -
  from assms obtain e where e: "e \<in> set (stopTimes this)"
    "m \<in> set (tripMatch this a b dateOpt e)"
    by (auto simp: findTripsWithStops_results_def)
  from tripMatch_cases [OF e(2)] obtain i j where ij: "i < j" "j < length (snd e)"
    "fromStop m = enrich this (snd e ! i)"
    by blast
  then have "snd e ! i \<in> set (snd e)" by simp
  moreover have "departure_time (fromStop m) = departure_time (snd e ! i)"
    using ij(3) by (simp add: enrich_def)
  ultimately show ?thesis using e(1) by blast
qed

lemma findTripsWithStops_sorted_by_key:
  "sorted (map (\<lambda>r. collationKey (departure_time (fromStop r)))
     (findTripsWithStops_sorted this a b dateOpt))"
  using sorted_sort_key [of "\<lambda>r. collationKey (departure_time (fromStop r))"]
  by (simp add: findTripsWithStops_sorted_def array_sort_byDeparture)

lemma findTripsWithStops_sorted_times:
  assumes "\<forall>e \<in> set (stopTimes this). \<forall>t \<in> set (snd e). isTime (departure_time t)"
  shows "sorted (map (departure_time \<circ> fromStop) (findTripsWithStops_sorted this a b dateOpt))"
proof -
  let ?xs = "findTripsWithStops_sorted this a b dateOpt"
  have t: "isTime (departure_time (fromStop m))" if "m \<in> set ?xs" for m
  proof -
    from that have "m \<in> set (findTripsWithStops_results this a b dateOpt)"
      by (simp add: findTripsWithStops_sorted_def array_sort_byDeparture)
    from findTripsWithStops_departures [OF this] assms show ?thesis by auto
  qed
  have "sorted_wrt (\<lambda>x y. collationKey (departure_time (fromStop x))
                          \<le> collationKey (departure_time (fromStop y))) ?xs"
    using findTripsWithStops_sorted_by_key [of this a b dateOpt] by (simp add: sorted_map)
  then have "sorted_wrt (\<lambda>x y. departure_time (fromStop x) \<le> departure_time (fromStop y)) ?xs"
    by (rule sorted_wrt_mono_rel [rotated]) (simp add: collationKey_times t)
  then show ?thesis by (simp add: sorted_map)
qed

lemma filter_unseen_sorted_wrt:
  "sorted_wrt R xs \<Longrightarrow> sorted_wrt R (filter_unseen key seen xs)"
proof (induction xs arbitrary: seen)
  case Nil
  then show ?case by simp
next
  case (Cons x xs)
  have "set (filter_unseen key (insert (key x) seen) xs) \<subseteq> set xs"
    by (rule filter_unseen_subset)
  with Cons show ?case by auto
qed

lemma filter_unseen_sorted_map:
  "sorted (map f xs) \<Longrightarrow> sorted (map f (filter_unseen key seen xs))"
  by (simp add: sorted_map filter_unseen_sorted_wrt)

text \<open>
  Claim C5, as the code has it. In a parser whose stored departure times are all
  zero-padded \<open>HH:MM:SS\<close> strings, the output is sorted ascending by the "from"
  \<^verbatim>\<open>departure_time\<close> string in character order; it is what is left of the sorted
  candidates when every candidate whose key \<^const>\<open>matchKey\<close> occurred earlier is
  dropped, so no two entries share a key, every key of a candidate is kept, and the
  entry kept is the first of its key in sorted order. The key is the train number, a
  dash and the departure time; the train number is the trip's \<^verbatim>\<open>trip_short_name\<close>
  when the trip has a record with a non-empty one, and the trip id otherwise. Two
  entries of the output whose trips have the same non-empty short name and the same
  departure time are therefore one entry.
\<close>

theorem findTripsWithStops_sorted_dedup:
  assumes times: "\<forall>e \<in> set (stopTimes this). \<forall>t \<in> set (snd e). isTime (departure_time t)"
  shows "sorted (map (departure_time \<circ> fromStop) (findTripsWithStops this a b dateOpt))
   \<and> sorted (map (departure_time \<circ> fromStop) (findTripsWithStops_sorted this a b dateOpt))
   \<and> subseq (findTripsWithStops this a b dateOpt) (findTripsWithStops_sorted this a b dateOpt)
   \<and> mset (findTripsWithStops_sorted this a b dateOpt)
       = mset (findTripsWithStops_results this a b dateOpt)
   \<and> distinct (map (matchKey this) (findTripsWithStops this a b dateOpt))
   \<and> matchKey this ` set (findTripsWithStops this a b dateOpt)
       = matchKey this ` set (findTripsWithStops_results this a b dateOpt)
   \<and> (\<forall>m \<in> set (findTripsWithStops this a b dateOpt).
         \<exists>ys zs. findTripsWithStops_sorted this a b dateOpt = ys @ m # zs
                \<and> matchKey this m \<notin> matchKey this ` set ys)
   \<and> (\<forall>m1 \<in> set (findTripsWithStops this a b dateOpt).
       \<forall>m2 \<in> set (findTripsWithStops this a b dateOpt).
         (\<exists>t1 t2. map_of (trips this) (tripId m1) = Some t1
                \<and> map_of (trips this) (tripId m2) = Some t2
                \<and> trip_short_name t1 \<noteq> [] \<and> trip_short_name t1 = trip_short_name t2)
         \<and> departure_time (fromStop m1) = departure_time (fromStop m2)
         \<longrightarrow> m1 = m2)"
proof (intro conjI ballI impI)
  show srt: "sorted (map (departure_time \<circ> fromStop)
               (findTripsWithStops_sorted this a b dateOpt))"
    using times by (rule findTripsWithStops_sorted_times)
  show "sorted (map (departure_time \<circ> fromStop) (findTripsWithStops this a b dateOpt))"
    unfolding findTripsWithStops_def
    using srt by (rule filter_unseen_sorted_map)
  show "subseq (findTripsWithStops this a b dateOpt)
               (findTripsWithStops_sorted this a b dateOpt)"
    by (simp add: findTripsWithStops_def filter_unseen_subseq)
  show "mset (findTripsWithStops_sorted this a b dateOpt)
       = mset (findTripsWithStops_results this a b dateOpt)"
    by (simp add: findTripsWithStops_sorted_def array_sort_byDeparture)
  show dist: "distinct (map (matchKey this) (findTripsWithStops this a b dateOpt))"
    by (simp add: findTripsWithStops_def filter_unseen_distinct)
  show "matchKey this ` set (findTripsWithStops this a b dateOpt)
       = matchKey this ` set (findTripsWithStops_results this a b dateOpt)"
    by (simp add: findTripsWithStops_def filter_unseen_keys findTripsWithStops_sorted_def
        array_sort_byDeparture)
  show "\<exists>ys zs. findTripsWithStops_sorted this a b dateOpt = ys @ m # zs
                \<and> matchKey this m \<notin> matchKey this ` set ys"
    if "m \<in> set (findTripsWithStops this a b dateOpt)" for m
    using that unfolding findTripsWithStops_def filter_unseen_first by blast
  show "m1 = m2"
    if m: "m1 \<in> set (findTripsWithStops this a b dateOpt)"
      "m2 \<in> set (findTripsWithStops this a b dateOpt)"
      and same: "(\<exists>t1 t2. map_of (trips this) (tripId m1) = Some t1
                \<and> map_of (trips this) (tripId m2) = Some t2
                \<and> trip_short_name t1 \<noteq> [] \<and> trip_short_name t1 = trip_short_name t2)
         \<and> departure_time (fromStop m1) = departure_time (fromStop m2)"
    for m1 m2
  proof -
    from same have "matchKey this m1 = matchKey this m2"
      by (auto simp: matchKey_def)
    moreover from dist have "inj_on (matchKey this) (set (findTripsWithStops this a b dateOpt))"
      by (simp add: distinct_map)
    ultimately show ?thesis using m by (auto dest: inj_onD)
  qed
qed

theorem findTripsWithStops_sorted_dedup_witness:
  "map tripId (findTripsWithStops_sorted demoParser ''A'' ''B'' None) = [''TX'', ''T1'', ''T2'']
   \<and> map (matchKey demoParser) (findTripsWithStops_sorted demoParser ''A'' ''B'' None)
       = [''TX-07:00:00'', ''1234-08:00:00'', ''1234-08:00:00'']
   \<and> map tripId (findTripsWithStops demoParser ''A'' ''B'' None) = [''TX'', ''T1'']
   \<and> sorted (map (departure_time \<circ> fromStop) (findTripsWithStops demoParser ''A'' ''B'' None))
   \<and> (\<exists>ys zs. findTripsWithStops_sorted demoParser ''A'' ''B'' None
                 = ys @ last (findTripsWithStops demoParser ''A'' ''B'' None) # zs
          \<and> matchKey demoParser (last (findTripsWithStops demoParser ''A'' ''B'' None))
               \<notin> matchKey demoParser ` set ys)"
proof -
  let ?out = "findTripsWithStops demoParser ''A'' ''B'' None"
  have fmt: "\<forall>e \<in> set (stopTimes demoParser). \<forall>t \<in> set (snd e). isTime (departure_time t)"
    by code_simp
  have e1: "map tripId (findTripsWithStops_sorted demoParser ''A'' ''B'' None)
              = [''TX'', ''T1'', ''T2'']"
    by code_simp
  have e2: "map (matchKey demoParser) (findTripsWithStops_sorted demoParser ''A'' ''B'' None)
       = [''TX-07:00:00'', ''1234-08:00:00'', ''1234-08:00:00'']"
    by code_simp
  have e3: "map tripId ?out = [''TX'', ''T1'']" by code_simp
  then have "?out \<noteq> []" by auto
  then have mem: "last ?out \<in> set ?out" by (rule last_in_set)
  show ?thesis
    using findTripsWithStops_sorted_dedup [OF fmt, of "''A''" "''B''" None] mem e1 e2 e3
    by blast
qed

text \<open>
  Claim C5, as the claim has it, fails in two ways. Two trips whose records have the
  same (empty) short display name and the same "from" departure time are both returned,
  because the key falls back to the trip id. And on times that are not zero-padded the
  output follows the collation, not the character order: \<open>1:00:00\<close> is returned
  before \<open>10:00:00\<close>, which is the greater string in character order.
\<close>

theorem findTripsWithStops_claimed_dedup_and_order_fail:
  "map tripId (findTripsWithStops unnumberedParser ''A'' ''B'' None) = [''T1'', ''T2'']
   \<and> map_option trip_short_name (getTrip unnumberedParser ''T1'') = Some []
   \<and> map_option trip_short_name (getTrip unnumberedParser ''T2'') = Some []
   \<and> map (departure_time \<circ> fromStop) (findTripsWithStops unnumberedParser ''A'' ''B'' None)
       = [''08:00:00'', ''08:00:00'']
   \<and> map (departure_time \<circ> fromStop) (findTripsWithStops unpaddedParser ''A'' ''B'' None)
       = [''1:00:00'', ''10:00:00'']
   \<and> \<not> sorted (map (departure_time \<circ> fromStop)
                (findTripsWithStops unpaddedParser ''A'' ''B'' None))"
  by code_simp

section \<open>Search: cap and deduplication\<close>

text \<open>
  Claim C6. \<^verbatim>\<open>search\<close> returns at most 20 results with pairwise different ids; they
  are the results built by the passes, in their order, each the first of its id; and
  \<^verbatim>\<open>search\<close> is a function of the parser and the query alone, so two calls on an
  unchanged parser return the same list.
\<close>

theorem search_cap_dedup:
  "length (search this query) \<le> 20
   \<and> distinct (map result_id (search this query))
   \<and> subseq (search this query) (search_results this query)
   \<and> (\<forall>r \<in> set (search this query).
         \<exists>ys zs. search_results this query = ys @ r # zs \<and> result_id r \<notin> result_id ` set ys)
   \<and> (\<forall>this' query'. this' = this \<and> query' = query \<longrightarrow> search this' query' = search this query)"
proof (intro conjI ballI allI impI)
  let ?u = "filter_unseen result_id {} (search_results this query)"
  have s: "search this query = take 20 ?u"
    by (simp add: search_def slice_0)
  show "length (search this query) \<le> 20" by (simp add: s)
  have "distinct (take 20 (map result_id ?u))"
    by (rule distinct_take) (rule filter_unseen_distinct)
  then show "distinct (map result_id (search this query))"
    by (simp add: s take_map)
  have "subseq (take 20 ?u) ?u"
    by (metis append_take_drop_id prefix_def prefix_imp_subseq)
  then show "subseq (search this query) (search_results this query)"
    unfolding s using filter_unseen_subseq subseq_order.trans by blast
  show "\<exists>ys zs. search_results this query = ys @ r # zs \<and> result_id r \<notin> result_id ` set ys"
    if "r \<in> set (search this query)" for r
  proof -
    from that have "r \<in> set ?u" unfolding s by (rule in_set_takeD)
    then show ?thesis unfolding filter_unseen_first by blast
  qed
  show "search this' query' = search this query" if "this' = this \<and> query' = query"
    for this' query'
    using that by simp
qed

theorem search_cap_dedup_witness:
  "map result_id (search demoParser ''station'')
     = [''stop-name-A'', ''stop-name-B'', ''trip-stop-T1-A'', ''trip-stop-T1-B'',
        ''trip-stop-T2-A'', ''trip-stop-T2-B'', ''trip-stop-TX-A'', ''trip-stop-TX-B'']
   \<and> length (search demoParser ''station'') \<le> 20
   \<and> (\<exists>ys zs. search_results demoParser ''station''
                 = ys @ last (search demoParser ''station'') # zs
          \<and> result_id (last (search demoParser ''station'')) \<notin> result_id ` set ys)"
proof -
  have e: "map result_id (search demoParser ''station'')
     = [''stop-name-A'', ''stop-name-B'', ''trip-stop-T1-A'', ''trip-stop-T1-B'',
        ''trip-stop-T2-A'', ''trip-stop-T2-B'', ''trip-stop-TX-A'', ''trip-stop-TX-B'']"
    by code_simp
  then have "search demoParser ''station'' \<noteq> []" by auto
  then have mem: "last (search demoParser ''station'') \<in> set (search demoParser ''station'')"
    by (rule last_in_set)
  show ?thesis
    using search_cap_dedup [of demoParser "''station''"] mem e by blast
qed

section \<open>The date filter\<close>

lemma tripsForStop_fold:
  assumes "snd acc = set (fst acc)"
  shows "snd (fold (tripsForStop_step this sid dateOpt) es acc)
           = set (fst (fold (tripsForStop_step this sid dateOpt) es acc))
         \<and> set (fst (fold (tripsForStop_step this sid dateOpt) es acc))
           = set (fst acc) \<union>
             {tid. \<exists>ts. (tid, ts) \<in> set es \<and> (\<exists>t \<in> set ts. StopTime.stop_id t = sid)
                      \<and> \<not> filteredByCalendar this tid dateOpt}"
  using assms
proof (induction es arbitrary: acc)
  case Nil
  then show ?case by simp
next
  case (Cons e es)
  let ?acc = "tripsForStop_step this sid dateOpt e acc"
  have inv: "snd ?acc = set (fst ?acc)"
    using Cons.prems by (simp add: tripsForStop_step_def)
  have step: "set (fst ?acc) = set (fst acc) \<union>
      {tid. \<exists>ts. (tid, ts) \<in> set [e] \<and> (\<exists>t \<in> set ts. StopTime.stop_id t = sid)
                      \<and> \<not> filteredByCalendar this tid dateOpt}"
    using Cons.prems by (cases e) (auto simp: tripsForStop_step_def)
  from Cons.IH [OF inv] step show ?case
    by (simp only: fold_simps) (auto simp del: fold_simps)
qed

lemma getTripsForStop_member:
  "tid \<in> set (getTripsForStop this sid dateOpt) \<longleftrightarrow>
     (\<exists>ts. (tid, ts) \<in> set (stopTimes this) \<and> (\<exists>t \<in> set ts. StopTime.stop_id t = sid)
          \<and> \<not> filteredByCalendar this tid dateOpt)"
  using tripsForStop_fold [of "([], {})" this sid dateOpt "stopTimes this"]
  by (simp add: getTripsForStop_def)

lemma tripMatch_filter:
  "tripMatch this a b dateOpt e
     = filter (\<lambda>m. \<not> filteredByCalendar this (tripId m) dateOpt) (tripMatch this a b None e)"
proof -
  have n: "\<not> filteredByCalendar this x None" for x
    by (simp add: filteredByCalendar_def)
  show ?thesis
    by (cases "filteredByCalendar this (fst e) dateOpt") (simp_all add: tripMatch_def Let_def n)
qed

lemma results_filter:
  "findTripsWithStops_results this a b dateOpt
     = filter (\<lambda>m. \<not> filteredByCalendar this (tripId m) dateOpt)
         (findTripsWithStops_results this a b None)"
proof -
  have "map (tripMatch this a b dateOpt) es
          = map (filter (\<lambda>m. \<not> filteredByCalendar this (tripId m) dateOpt))
              (map (tripMatch this a b None) es)" for es
    by (simp add: tripMatch_filter [of this a b dateOpt])
  then show ?thesis
    by (simp only: findTripsWithStops_results_def filter_concat)
qed

lemma sorted_filter:
  "findTripsWithStops_sorted this a b dateOpt
     = filter (\<lambda>m. \<not> filteredByCalendar this (tripId m) dateOpt)
         (findTripsWithStops_sorted this a b None)"
  unfolding findTripsWithStops_sorted_def array_sort_byDeparture
  by (subst results_filter) (rule filter_sort [symmetric])

lemma filter_unseen_filter:
  assumes "x \<in> set (filter_unseen key {} xs)" and "P x"
  shows "x \<in> set (filter_unseen key {} (filter P xs))"
proof -
  from assms(1) obtain ys zs where d: "xs = ys @ x # zs" "key x \<notin> key ` set ys"
    unfolding filter_unseen_first by blast
  have "filter P xs = filter P ys @ x # filter P zs"
    using d(1) assms(2) by simp
  moreover have "key x \<notin> key ` set (filter P ys)"
    using d(2) by auto
  ultimately show ?thesis
    unfolding filter_unseen_first by blast
qed

text \<open>
  Claim C10. A trip id with stored stop-times but no record in the trips index passes
  the date filter on every date: \<^verbatim>\<open>getTripsForStop\<close> lists it with a date exactly
  when it lists it without one, what \<^verbatim>\<open>findTripsWithStops\<close> pushes for it is the same
  with and without a date, and a match of it that is returned without a date is
  returned with every date.
\<close>

theorem unknown_trip_passes_date_filter:
  assumes "map_of (trips this) tid = None"
  shows "\<not> filteredByCalendar this tid (Some D)
    \<and> (tid \<in> set (getTripsForStop this sid (Some D)) \<longleftrightarrow>
         (\<exists>ts. (tid, ts) \<in> set (stopTimes this) \<and> (\<exists>t \<in> set ts. StopTime.stop_id t = sid)))
    \<and> (tid \<in> set (getTripsForStop this sid (Some D)) \<longleftrightarrow>
         tid \<in> set (getTripsForStop this sid None))
    \<and> (\<forall>ts. tripMatch this a b (Some D) (tid, ts) = tripMatch this a b None (tid, ts))
    \<and> (\<forall>m \<in> set (findTripsWithStops this a b None).
          tripId m = tid \<longrightarrow> m \<in> set (findTripsWithStops this a b (Some D)))"
proof -
  have nf: "\<not> filteredByCalendar this tid dateOpt" for dateOpt
    using assms by (simp add: filteredByCalendar_def split: option.splits)
  have g: "tid \<in> set (getTripsForStop this sid dateOpt) \<longleftrightarrow>
         (\<exists>ts. (tid, ts) \<in> set (stopTimes this) \<and> (\<exists>t \<in> set ts. StopTime.stop_id t = sid))"
    for dateOpt
    by (simp add: getTripsForStop_member nf)
  have t: "tripMatch this a b (Some D) (tid, ts) = tripMatch this a b None (tid, ts)" for ts
    using nf [of "Some D"] nf [of None] by (simp add: tripMatch_def)
  have f: "m \<in> set (findTripsWithStops this a b (Some D))"
    if "m \<in> set (findTripsWithStops this a b None)" "tripId m = tid" for m
  proof -
    have "\<not> filteredByCalendar this (tripId m) (Some D)"
      using that(2) nf by simp
    with that(1) show ?thesis
      unfolding findTripsWithStops_def sorted_filter [of this a b "Some D"]
      by (rule filter_unseen_filter)
  qed
  show ?thesis
    using nf [of "Some D"] g [of "Some D"] g [of None] t f by blast
qed

theorem unknown_trip_passes_date_filter_witness:
  "map_of (trips demoParser) ''TX'' = None
   \<and> getTripsForStop demoParser ''A'' None = [''T1'', ''T2'', ''TX'']
   \<and> getTripsForStop demoParser ''A'' (Some monday8) = [''T2'', ''TX'']
   \<and> ''TX'' \<in> set (getTripsForStop demoParser ''A'' (Some monday8))
   \<and> map tripId (findTripsWithStops demoParser ''A'' ''B'' None) = [''TX'', ''T1'']
   \<and> hd (findTripsWithStops demoParser ''A'' ''B'' None)
       \<in> set (findTripsWithStops demoParser ''A'' ''B'' (Some monday8))"
proof -
  let ?out = "findTripsWithStops demoParser ''A'' ''B'' None"
  have h: "map_of (trips demoParser) ''TX'' = None" by code_simp
  have g0: "getTripsForStop demoParser ''A'' None = [''T1'', ''T2'', ''TX'']" by code_simp
  have g8: "getTripsForStop demoParser ''A'' (Some monday8) = [''T2'', ''TX'']" by code_simp
  have e: "map tripId ?out = [''TX'', ''T1'']" by code_simp
  then have ne: "?out \<noteq> []" by auto
  then have mem: "hd ?out \<in> set ?out" by (rule hd_in_set)
  have "tripId (hd ?out) = hd (map tripId ?out)" using ne by (simp add: hd_map)
  then have tx: "tripId (hd ?out) = ''TX''" by (simp add: e)
  from unknown_trip_passes_date_filter [OF h, of monday8 "''A''" "''A''" "''B''"] mem tx
  have "hd ?out \<in> set (findTripsWithStops demoParser ''A'' ''B'' (Some monday8))"
    and "''TX'' \<in> set (getTripsForStop demoParser ''A'' (Some monday8))
           \<longleftrightarrow> ''TX'' \<in> set (getTripsForStop demoParser ''A'' None)"
    by blast+
  then show ?thesis using h g0 g8 e by simp
qed

end
